theory Spec2Isabelle
  imports Complex_Main "HOL-Library.Log_Nat"
begin

section \<open>readcompressibility: the synchronized FASTQ reader and the per-read zlib ratio\<close>

text \<open>
  The theory embeds the loop of \<^verbatim>\<open>main\<close> in \<^verbatim>\<open>readcompressibility.go\<close>. An input
  is the list of tokens its \<^verbatim>\<open>bufio.Scanner\<close> yields (lines without their terminator);
  \<^verbatim>\<open>Scan\<close> fails when the list is used up (at the end of the input, and also at a
  read error or a line too long for the scanner, which the code does not tell apart: it
  never looks at \<^verbatim>\<open>Err\<close>). Go strings are byte strings, as HOL's
  \<open>string\<close> is, so \<^verbatim>\<open>len\<close> is \<open>length\<close>. The counters are Go \<^verbatim>\<open>int\<close>s that only
  count lines and bytes read; they are modelled as \<open>nat\<close>.
\<close>

subsection \<open>Flags\<close>

record Args =
  OutFilename :: string
  Limit :: int
  CheckNames :: bool

subsection \<open>Library functions the loop calls\<close>

text \<open>\<^verbatim>\<open>strings.HasPrefix\<close>.\<close>

definition HasPrefix :: "string \<Rightarrow> string \<Rightarrow> bool" where
  "HasPrefix s prefix = (length prefix \<le> length s \<and> take (length prefix) s = prefix)"

text \<open>
  \<^verbatim>\<open>strings.Split(line[1:len(line)], " ")[0]\<close>: the bytes after the first one, up to
  the first space.
\<close>

definition read_ident :: "string \<Rightarrow> string" where
  "read_ident line = takeWhile (\<lambda>c. c \<noteq> CHR '' '') (drop 1 line)"

text \<open>The verb \<^verbatim>\<open>%d\<close> on a non-negative integer.\<close>

definition digit_char :: "nat \<Rightarrow> char" where
  "digit_char d = char_of (48 + d)"

fun dec :: "nat \<Rightarrow> string" where
  "dec n = (if n < 10 then [digit_char n] else dec (n div 10) @ [digit_char (n mod 10)])"

declare dec.simps [simp del]

subsection \<open>compress/zlib\<close>

text \<open>
  A \<^verbatim>\<open>zlib.Writer\<close> at the default level frames a DEFLATE stream: the two header
  bytes \<^verbatim>\<open>78 9c\<close>, the DEFLATE encoding of everything written, and the Adler-32
  checksum of the written bytes in four big-endian bytes. The DEFLATE encoder
  (\<^verbatim>\<open>compress/flate\<close>) is a parameter of the model. The writer may hold bytes back
  until \<^verbatim>\<open>Close\<close>; the buffer is read only after \<^verbatim>\<open>Close\<close>, so the model appends
  the whole container then.
\<close>

type_synonym deflater = "string \<Rightarrow> string"

fun adler32_step :: "nat \<times> nat \<Rightarrow> char \<Rightarrow> nat \<times> nat" where
  "adler32_step (a, b) c =
     (let a' = (a + of_char c) mod 65521 in (a', (b + a') mod 65521))"

definition adler32_bytes :: "string \<Rightarrow> string" where
  "adler32_bytes p =
     (let (a, b) = foldl adler32_step (1, 0) p
      in [char_of (b div 256), char_of (b mod 256), char_of (a div 256), char_of (a mod 256)])"

definition zlib_stream :: "deflater \<Rightarrow> string \<Rightarrow> string" where
  "zlib_stream deflate p = [CHR 0x78, CHR 0x9c] @ deflate p @ adler32_bytes p"

text \<open>
  The variable \<^verbatim>\<open>zwriter\<close> is a pointer: \<open>Nil\<close> before the first header line,
  \<open>Open p\<close> for a writer that has accepted the bytes \<open>p\<close>, \<open>Closed p\<close> after
  \<^verbatim>\<open>Close\<close>. A method call on the nil pointer panics (\<open>None\<close>). A closed writer
  rejects a write (\<^verbatim>\<open>Fprintln\<close> drops the error), and closing it again writes the
  checksum again. The loop uses the writer only in the round of a sequence line, and
  with at least one input the writer it finds there is the open, empty one made in the
  round of the header line before (\<open>loop_inv\<close> below): a run of \<open>main\<close> never uses a
  closed writer.
\<close>

datatype zlib_Writer = Nil | Open string | Closed string

fun zlib_Write :: "zlib_Writer \<Rightarrow> string \<Rightarrow> zlib_Writer option" where
  "zlib_Write Nil b = None"
| "zlib_Write (Open p) b = Some (Open (p @ b))"
| "zlib_Write (Closed p) b = Some (Closed p)"

fun zlib_Close :: "deflater \<Rightarrow> zlib_Writer \<Rightarrow> string \<Rightarrow> (zlib_Writer \<times> string) option" where
  "zlib_Close deflate Nil buf = None"
| "zlib_Close deflate (Open p) buf = Some (Closed p, buf @ zlib_stream deflate p)"
| "zlib_Close deflate (Closed p) buf = Some (Closed p, buf @ adler32_bytes p)"

subsection \<open>float64 division and the verb \<^verbatim>\<open>%0.4f\<close>\<close>

text \<open>
  A finite non-negative \<^verbatim>\<open>float64\<close> is the rational it denotes. Conversion from an
  integer and division round to the nearest value with a 53-bit significand, ties to
  even (the lengths are far from the overflow and subnormal ranges). Division by zero
  gives \<^verbatim>\<open>+Inf\<close>, or \<^verbatim>\<open>NaN\<close> for \<^verbatim>\<open>0/0\<close>. The verb \<^verbatim>\<open>%0.4f\<close> prints the exact value
  rounded to four decimals, ties to even.
\<close>

datatype float64 = Finite rat | PosInf | NaN

definition round_half_even :: "rat \<Rightarrow> int" where
  "round_half_even x =
     (let f = \<lfloor>x\<rfloor>; r = x - of_int f
      in if r < 1 / 2 then f else if 1 / 2 < r then f + 1 else if even f then f else f + 1)"

text \<open>
  The exponent \<open>e\<close> with \<open>2 ^ e \<le> x < 2 ^ (e + 1)\<close>, for positive \<open>x\<close>, from the
  bit length of \<open>\<lfloor>x\<rfloor>\<close> or of \<open>\<lceil>1 / x\<rceil> - 1\<close>.
\<close>

definition ilog2 :: "rat \<Rightarrow> int" where
  "ilog2 x =
     (if 1 \<le> x then int (floorlog 2 (nat \<lfloor>x\<rfloor>)) - 1
      else - int (floorlog 2 (nat (\<lceil>1 / x\<rceil> - 1))))"

definition round_f64 :: "rat \<Rightarrow> rat" where
  "round_f64 x =
     (if x \<le> 0 then 0
      else let e = ilog2 x
           in of_int (round_half_even (x * 2 powi (52 - e))) * 2 powi (e - 52))"

definition float64_of :: "nat \<Rightarrow> float64" where
  "float64_of n = Finite (round_f64 (of_nat n))"

fun float64_div :: "float64 \<Rightarrow> float64 \<Rightarrow> float64" where
  "float64_div (Finite x) (Finite y) =
     (if y = 0 then (if x = 0 then NaN else PosInf) else Finite (round_f64 (x / y)))"
| "float64_div x y = NaN"

fun fmt_f4 :: "float64 \<Rightarrow> string" where
  "fmt_f4 (Finite x) =
     (let n = nat (round_half_even (x * 10000))
      in dec (n div 10000) @ ''.'' @
         [digit_char (n div 1000 mod 10), digit_char (n div 100 mod 10),
          digit_char (n div 10 mod 10), digit_char (n mod 10)])"
| "fmt_f4 PosInf = ''+Inf''"
| "fmt_f4 NaN = ''NaN''"

subsection \<open>Errors and results\<close>

text \<open>
  The three \<^verbatim>\<open>fmt.Errorf\<close> calls of the loop, each with the arguments it is given;
  \<open>message\<close> is the text they format.
\<close>

datatype failure =
    MalformedRecord nat string
  | NameMismatch string nat nat string
  | Desync nat

fun message :: "failure \<Rightarrow> string" where
  "message (MalformedRecord line_num line) =
     ''Line '' @ dec line_num @ '' should be a fastq header line, got: '' @ line @ [CHR 0x0A]"
| "message (NameMismatch read_name line_num input name) =
     ''expecting read '' @ read_name @ '' on line '' @ dec line_num @ '' in input '' @
     dec input @ '', got '' @ name"
| "message (Desync i) = ''Expecting scanner '' @ dec i @ '' to be able to scan'' @ [CHR 0x0A]"

text \<open>
  The closure returns \<^verbatim>\<open>nil\<close> (\<open>Done\<close>) or an error (\<open>Failed\<close>); a nil-pointer
  dereference ends the process with a runtime panic (\<open>Panic\<close>).
\<close>

datatype outcome = Done | Failed failure | Panic

subsection \<open>The state of the loop\<close>

record state =
  inputScanners :: "string list list"
  line_num :: nat
  read_count :: nat
  read_name :: string
  read_buf :: string
  zwriter :: zlib_Writer
  full_len :: nat
  output_rows :: "string list"

text \<open>What a run leaves behind: how the closure ended, and the state it ended in.\<close>

type_synonym result = "outcome \<times> state"

text \<open>The row \<^verbatim>\<open>fmt.Fprintf(output, "%s\t%d\t%d\t%0.4f\n", ...)\<close> writes.\<close>

definition Fprintf_row :: "string \<Rightarrow> nat \<Rightarrow> nat \<Rightarrow> float64 \<Rightarrow> string" where
  "Fprintf_row name full compressed r =
     name @ [CHR 0x09] @ dec full @ [CHR 0x09] @ dec compressed @ [CHR 0x09] @ fmt_f4 r @ [CHR 0x0A]"

subsection \<open>The body of the inner loop, for input \<open>i\<close>\<close>

definition scan_input :: "Args \<Rightarrow> nat \<Rightarrow> state \<Rightarrow> result + state" where
  "scan_input args i st =
     (case inputScanners st ! i of
        [] \<Rightarrow> if i = 0 then Inl (Done, st) else Inl (Failed (Desync i), st)
      | line # rest \<Rightarrow>
          let st = st\<lparr>inputScanners := (inputScanners st)[i := rest]\<rparr> in
          if line_num st mod 4 = 0 then
            if \<not> HasPrefix line ''@'' then
              Inl (Failed (MalformedRecord (line_num st) line), st)
            else
              let name = read_ident line in
              if i = 0 then Inr (st\<lparr>read_name := name, read_buf := [], zwriter := Open []\<rparr>)
              else if CheckNames args \<and> name \<noteq> read_name st then
                Inl (Failed (NameMismatch (read_name st) (line_num st) (i + 1) name), st)
              else Inr st
          else if line_num st mod 4 = 1 then
            (case zlib_Write (zwriter st) (line @ [CHR 0x0A]) of
               None \<Rightarrow> Inl (Panic, st)
             | Some w \<Rightarrow> Inr (st\<lparr>full_len := full_len st + length line, zwriter := w\<rparr>))
          else Inr st)"

text \<open>\<^verbatim>\<open>for i := 0; i < len(fq); i++\<close>, entered at \<open>i\<close>.\<close>

function scan_inputs :: "Args \<Rightarrow> nat \<Rightarrow> state \<Rightarrow> result + state" where
  "scan_inputs args i st =
     (if i < length (inputScanners st) then
        (case scan_input args i st of
           Inl r \<Rightarrow> Inl r
         | Inr st' \<Rightarrow> scan_inputs args (i + 1) st')
      else Inr st)"
  by pat_completeness auto
termination
  by (relation "measure (\<lambda>(args, i, st). length (inputScanners st) - i)")
    (auto simp: scan_input_def Let_def split: list.splits if_splits option.splits)

declare scan_inputs.simps [simp del]

subsection \<open>The outer loop\<close>

text \<open>
  The loop has no bound of its own: it ends when the limit is reached, when an input
  fails to scan, on an error or on a panic. Not returning is the value \<open>None\<close>.
\<close>

partial_function (option) run_loop :: "deflater \<Rightarrow> Args \<Rightarrow> state \<Rightarrow> result option" where
  "run_loop deflate args st =
     (if 0 < Limit args \<and> Limit args \<le> int (read_count st) then Some (Done, st)
      else
        (case scan_inputs args 0 (st\<lparr>full_len := 0\<rparr>) of
           Inl r \<Rightarrow> Some r
         | Inr st \<Rightarrow>
             if line_num st mod 4 = 1 then
               (case zlib_Close deflate (zwriter st) (read_buf st) of
                  None \<Rightarrow> Some (Panic, st)
                | Some (w, buf) \<Rightarrow>
                    let compressed_len = length buf;
                        r = float64_div (float64_of (full_len st)) (float64_of compressed_len);
                        row = Fprintf_row (read_name st) (full_len st) compressed_len r
                    in run_loop deflate args
                         (st\<lparr>zwriter := w, read_buf := buf, output_rows := output_rows st @ [row],
                             read_count := read_count st + 1, line_num := line_num st + 1\<rparr>))
             else run_loop deflate args (st\<lparr>line_num := line_num st + 1\<rparr>)))"

text \<open>
  \<^verbatim>\<open>main\<close>: one scanner per positional argument, the counters at zero, the closure's
  variables at their zero values.
\<close>

definition init :: "string list list \<Rightarrow> state" where
  "init fq = \<lparr>inputScanners = fq, line_num = 0, read_count = 0, read_name = [],
              read_buf = [], zwriter = Nil, full_len = 0, output_rows = []\<rparr>"

definition main :: "deflater \<Rightarrow> Args \<Rightarrow> string list list \<Rightarrow> result option" where
  "main deflate args fq = run_loop deflate args (init fq)"

declare run_loop.simps [code]

subsection \<open>Sample arguments\<close>

text \<open>
  The flags at the defaults the program's \<^verbatim>\<open>init\<close> function declares, and a DEFLATE
  encoder to run the model with:
  one stored block (final, type 00, the length and its complement in two little-endian
  bytes each, then the bytes as they are), a DEFLATE stream for an input shorter than
  65536 bytes. The theorems hold for every encoder; the compressed lengths in the runs
  evaluated below are those of this one (the library's encoder gives other sizes for the
  same bytes, the raw lengths and the number of rows are the same).
\<close>

definition default_args :: Args where
  "default_args = \<lparr>OutFilename = [], Limit = 0, CheckNames = False\<rparr>"

definition stored_block :: deflater where
  "stored_block p =
     (let n = length p
      in [CHR 0x01, char_of (n mod 256), char_of (n div 256 mod 256),
          char_of (255 - n mod 256), char_of (255 - n div 256 mod 256)] @ p)"

section \<open>Notions used to state and prove the properties\<close>

text \<open>
  What the body of the inner loop does with line \<open>n\<close> of input \<open>i\<close>, read off the
  inputs alone: \<open>Some\<close> the way the closure returns there, \<open>None\<close> when the loop goes
  on. The name an input \<open>i > 0\<close> is compared with is the one input 0 set in the same
  round.
\<close>

definition line_verdict :: "Args \<Rightarrow> string list list \<Rightarrow> nat \<Rightarrow> nat \<Rightarrow> outcome option" where
  "line_verdict args fq n i =
     (if length (fq ! i) \<le> n then Some (if i = 0 then Done else Failed (Desync i))
      else if n mod 4 = 0 then
        (if \<not> HasPrefix (fq ! i ! n) ''@'' then Some (Failed (MalformedRecord n (fq ! i ! n)))
         else if i \<noteq> 0 \<and> CheckNames args \<and> read_ident (fq ! i ! n) \<noteq> read_ident (fq ! 0 ! n)
         then Some (Failed (NameMismatch (read_ident (fq ! 0 ! n)) n (i + 1) (read_ident (fq ! i ! n))))
         else None)
      else None)"

text \<open>
  Line \<open>n\<close> of input \<open>i\<close> passes the header checks; and: every input has its first
  \<open>n\<close> lines, and each header line among them passes the checks.
\<close>

definition header_ok :: "Args \<Rightarrow> string list list \<Rightarrow> nat \<Rightarrow> nat \<Rightarrow> bool" where
  "header_ok args fq n i \<longleftrightarrow>
     HasPrefix (fq ! i ! n) ''@'' \<and>
     (CheckNames args \<and> i \<noteq> 0 \<longrightarrow> read_ident (fq ! i ! n) = read_ident (fq ! 0 ! n))"

definition lines_ok :: "Args \<Rightarrow> string list list \<Rightarrow> nat \<Rightarrow> bool" where
  "lines_ok args fq n \<longleftrightarrow>
     (\<forall>i<length fq. n \<le> length (fq ! i) \<and> (\<forall>m<n. m mod 4 = 0 \<longrightarrow> header_ok args fq m i))"

text \<open>
  The bytes written to the compressor in round \<open>n\<close> (each input's line \<open>n\<close> with its
  line terminator, in input order), the sum of the lengths of those lines, and the row
  of read \<open>k\<close> computed from the inputs.
\<close>

definition seq_bytes :: "string list list \<Rightarrow> nat \<Rightarrow> string" where
  "seq_bytes fq n = concat (map (\<lambda>s. s ! n @ [CHR 0x0A]) fq)"

definition seq_len :: "string list list \<Rightarrow> nat \<Rightarrow> nat" where
  "seq_len fq n = sum_list (map (\<lambda>s. length (s ! n)) fq)"

definition row_at :: "deflater \<Rightarrow> string list list \<Rightarrow> nat \<Rightarrow> string" where
  "row_at deflate fq k =
     (let full = seq_len fq (4 * k + 1);
          compressed = length (zlib_stream deflate (seq_bytes fq (4 * k + 1)))
      in Fprintf_row (read_ident (fq ! 0 ! (4 * k))) full compressed
           (float64_div (float64_of full) (float64_of compressed)))"

text \<open>
  The invariant of the inner loop in round \<open>n\<close>, before input \<open>i\<close>, relative to the
  state \<open>st0\<close> the round started in.
\<close>

definition mid :: "string list list \<Rightarrow> nat \<Rightarrow> nat \<Rightarrow> state \<Rightarrow> state \<Rightarrow> bool" where
  "mid fq n i st0 st \<longleftrightarrow>
     inputScanners st = map (drop (Suc n)) (take i fq) @ map (drop n) (drop i fq) \<and>
     line_num st = n \<and> read_count st = read_count st0 \<and> output_rows st = output_rows st0 \<and>
     (n mod 4 = 0 \<longrightarrow> 0 < i \<longrightarrow>
        read_name st = read_ident (fq ! 0 ! n) \<and> read_buf st = [] \<and> zwriter st = Open []) \<and>
     (n mod 4 = 1 \<longrightarrow>
        read_name st = read_name st0 \<and> read_buf st = [] \<and>
        zwriter st = Open (seq_bytes (take i fq) n) \<and> full_len st = seq_len (take i fq) n)"

text \<open>The invariant of the outer loop, and what it gives for the result of a run.\<close>

definition loop_inv :: "deflater \<Rightarrow> Args \<Rightarrow> string list list \<Rightarrow> state \<Rightarrow> bool" where
  "loop_inv deflate args fq st \<longleftrightarrow>
     inputScanners st = map (drop (line_num st)) fq \<and>
     (\<forall>m<line_num st. \<forall>j<length fq. line_verdict args fq m j = None) \<and>
     read_count st = (line_num st + 2) div 4 \<and>
     output_rows st = map (row_at deflate fq) [0..<(line_num st + 2) div 4] \<and>
     (0 < Limit args \<longrightarrow> int (read_count st) \<le> Limit args) \<and>
     (line_num st mod 4 = 1 \<longrightarrow>
        read_name st = read_ident (fq ! 0 ! (line_num st - 1)) \<and> read_buf st = [] \<and>
        zwriter st = Open [])"

definition run_post :: "deflater \<Rightarrow> Args \<Rightarrow> string list list \<Rightarrow> result \<Rightarrow> bool" where
  "run_post deflate args fq res \<longleftrightarrow>
     (case res of (r, st) \<Rightarrow>
        (\<forall>m<line_num st. \<forall>j<length fq. line_verdict args fq m j = None) \<and>
        read_count st = (line_num st + 2) div 4 \<and>
        output_rows st = map (row_at deflate fq) [0..<(line_num st + 2) div 4] \<and>
        (0 < Limit args \<longrightarrow> int (read_count st) \<le> Limit args) \<and>
        ((r = Done \<and> 0 < Limit args \<and> int (read_count st) = Limit args) \<or>
         (\<not> (0 < Limit args \<and> Limit args \<le> int (read_count st)) \<and>
          (\<exists>j<length fq. (\<forall>j'<j. line_verdict args fq (line_num st) j' = None) \<and>
               line_verdict args fq (line_num st) j = Some r))))"

section \<open>The loops\<close>

subsection \<open>The inner loop\<close>

lemma scanners_nth:
  "i < length fq \<Longrightarrow> (map f (take i fq) @ map g (drop i fq)) ! i = g (fq ! i)"
  by (simp add: nth_append)

lemma scanners_update:
  "i < length fq \<Longrightarrow>
   (map f (take i fq) @ map g (drop i fq))[i := f (fq ! i)] =
   map f (take (Suc i) fq) @ map g (drop (Suc i) fq)"
  by (simp add: list_update_append take_Suc_conv_app_nth flip: Cons_nth_drop_Suc)

lemma seq_bytes_Suc:
  "i < length fq \<Longrightarrow> seq_bytes (take (Suc i) fq) n = seq_bytes (take i fq) n @ fq ! i ! n @ [CHR 0x0A]"
  by (simp add: seq_bytes_def take_Suc_conv_app_nth)

lemma seq_len_Suc:
  "i < length fq \<Longrightarrow> seq_len (take (Suc i) fq) n = seq_len (take i fq) n + length (fq ! i ! n)"
  by (simp add: seq_len_def take_Suc_conv_app_nth)

lemma scan_input_mid:
  assumes "i < length fq" and "mid fq n i st0 st"
  shows "case scan_input args i st of
           Inl (r, st') \<Rightarrow> line_verdict args fq n i = Some r \<and> line_num st' = n \<and>
             read_count st' = read_count st0 \<and> output_rows st' = output_rows st0
         | Inr st' \<Rightarrow> line_verdict args fq n i = None \<and> mid fq n (Suc i) st0 st'"
proof (cases "n < length (fq ! i)")
  case False
  with assms have "inputScanners st ! i = []"
    by (simp add: mid_def scanners_nth)
  with False assms show ?thesis
    by (cases "i = 0") (simp_all add: scan_input_def line_verdict_def mid_def)
next
  case True
  with assms have sc: "inputScanners st ! i = fq ! i ! n # drop (Suc n) (fq ! i)"
    by (simp add: mid_def scanners_nth Cons_nth_drop_Suc)
  from assms have upd: "(inputScanners st)[i := drop (Suc n) (fq ! i)] =
      map (drop (Suc n)) (take (Suc i) fq) @ map (drop n) (drop (Suc i) fq)"
    by (simp add: mid_def scanners_update)
  from assms True sc upd show ?thesis
    by (auto simp: scan_input_def line_verdict_def mid_def Let_def seq_bytes_Suc seq_len_Suc)
qed


lemma scan_inputs_mid:
  assumes "i \<le> length fq" and "mid fq n i st0 st"
  shows "case scan_inputs args i st of
           Inl (r, st') \<Rightarrow>
             (\<exists>j. i \<le> j \<and> j < length fq \<and> (\<forall>j'. i \<le> j' \<and> j' < j \<longrightarrow> line_verdict args fq n j' = None) \<and>
                  line_verdict args fq n j = Some r) \<and>
             line_num st' = n \<and> read_count st' = read_count st0 \<and> output_rows st' = output_rows st0
         | Inr st' \<Rightarrow>
             (\<forall>j. i \<le> j \<and> j < length fq \<longrightarrow> line_verdict args fq n j = None) \<and>
             mid fq n (length fq) st0 st'"
  using assms
proof (induction args i st rule: scan_inputs.induct)
  case (1 args i st)
  from "1.prems" have len: "length (inputScanners st) = length fq"
    by (simp add: mid_def)
  show ?case
  proof (cases "i < length fq")
    case False
    with "1.prems" len show ?thesis
      by (auto simp: scan_inputs.simps)
  next
    case True
    note one = scan_input_mid [OF True "1.prems"(2), of args]
    show ?thesis
    proof (cases "scan_input args i st")
      case (Inl res)
      obtain r st' where res: "res = (r, st')" by (cases res)
      from one Inl res have "line_verdict args fq n i = Some r" "line_num st' = n"
        "read_count st' = read_count st0" "output_rows st' = output_rows st0"
        by simp_all
      moreover from True len Inl res have "scan_inputs args i st = Inl (r, st')"
        by (simp add: scan_inputs.simps)
      ultimately show ?thesis
        using True by auto
    next
      case (Inr st1)
      from one Inr have v: "line_verdict args fq n i = None" and m: "mid fq n (Suc i) st0 st1"
        by simp_all
      from True len Inr have eq: "scan_inputs args i st = scan_inputs args (i + 1) st1"
        by (simp add: scan_inputs.simps)
      from True len have "i < length (inputScanners st)" by simp
      from "1.IH" [OF this Inr] True m
      have ih: "case scan_inputs args (i + 1) st1 of
           Inl (r, st') \<Rightarrow>
             (\<exists>j. i + 1 \<le> j \<and> j < length fq \<and> (\<forall>j'. i + 1 \<le> j' \<and> j' < j \<longrightarrow> line_verdict args fq n j' = None) \<and>
                  line_verdict args fq n j = Some r) \<and>
             line_num st' = n \<and> read_count st' = read_count st0 \<and> output_rows st' = output_rows st0
         | Inr st' \<Rightarrow>
             (\<forall>j. i + 1 \<le> j \<and> j < length fq \<longrightarrow> line_verdict args fq n j = None) \<and>
             mid fq n (length fq) st0 st'"
        by simp
      have step: "line_verdict args fq n j' = None"
        if "i \<le> j'" and "i + 1 \<le> j' \<longrightarrow> line_verdict args fq n j' = None" for j'
        using that v by (cases "j' = i") auto
      show ?thesis
      proof (cases "scan_inputs args (i + 1) st1")
        case (Inl res)
        obtain r st' where res: "res = (r, st')" by (cases res)
        from ih Inl res obtain j where j: "i + 1 \<le> j" "j < length fq"
          "\<forall>j'. i + 1 \<le> j' \<and> j' < j \<longrightarrow> line_verdict args fq n j' = None"
          "line_verdict args fq n j = Some r"
          and rest: "line_num st' = n" "read_count st' = read_count st0" "output_rows st' = output_rows st0"
          by auto
        from j step have "\<forall>j'. i \<le> j' \<and> j' < j \<longrightarrow> line_verdict args fq n j' = None"
          by blast
        with j have "\<exists>j. i \<le> j \<and> j < length fq \<and> (\<forall>j'. i \<le> j' \<and> j' < j \<longrightarrow> line_verdict args fq n j' = None) \<and>
                  line_verdict args fq n j = Some r"
          by (intro exI [of _ j]) simp
        with rest eq Inl res show ?thesis by simp
      next
        case (Inr st2)
        with ih have a: "\<forall>j. i + 1 \<le> j \<and> j < length fq \<longrightarrow> line_verdict args fq n j = None"
          and b: "mid fq n (length fq) st0 st2"
          by simp_all
        from a step have "\<forall>j. i \<le> j \<and> j < length fq \<longrightarrow> line_verdict args fq n j = None"
          by blast
        with b eq Inr show ?thesis by simp
      qed
    qed
  qed
qed


subsection \<open>The outer loop\<close>

lemma run_loop_step:
  assumes ne: "fq \<noteq> []" and inv: "loop_inv deflate args fq st"
  shows "(\<exists>res. run_loop deflate args st = Some res \<and> run_post deflate args fq res) \<or>
         (\<exists>st'. run_loop deflate args st = run_loop deflate args st' \<and>
                loop_inv deflate args fq st' \<and> line_num st' = Suc (line_num st) \<and>
                line_num st < length (fq ! 0))"
proof (cases "0 < Limit args \<and> Limit args \<le> int (read_count st)")
  case True
  then have "run_loop deflate args st = Some (Done, st)"
    by (subst run_loop.simps) simp
  moreover from True inv have "run_post deflate args fq (Done, st)"
    by (simp add: loop_inv_def run_post_def)
  ultimately show ?thesis by blast
next
  case False
  define n where "n = line_num st"
  define st0 where "st0 = st\<lparr>full_len := 0\<rparr>"
  from inv have m0: "mid fq n 0 st0 st0"
    by (simp add: loop_inv_def mid_def st0_def n_def seq_bytes_def seq_len_def)
  note inner = scan_inputs_mid [OF le0 m0, of args]
  have unfold: "run_loop deflate args st =
      (case scan_inputs args 0 st0 of
         Inl r \<Rightarrow> Some r
       | Inr st \<Rightarrow>
           if line_num st mod 4 = 1 then
             (case zlib_Close deflate (zwriter st) (read_buf st) of
                None \<Rightarrow> Some (Panic, st)
              | Some (w, buf) \<Rightarrow>
                  let compressed_len = length buf;
                      r = float64_div (float64_of (full_len st)) (float64_of compressed_len);
                      row = Fprintf_row (read_name st) (full_len st) compressed_len r
                  in run_loop deflate args
                       (st\<lparr>zwriter := w, read_buf := buf, output_rows := output_rows st @ [row],
                           read_count := read_count st + 1, line_num := line_num st + 1\<rparr>))
           else run_loop deflate args (st\<lparr>line_num := line_num st + 1\<rparr>))"
    unfolding st0_def by (subst run_loop.simps, subst if_not_P [OF False]) (rule refl)
  from inv have pre: "\<forall>m<n. \<forall>j<length fq. line_verdict args fq m j = None"
    and rc: "read_count st = (n + 2) div 4"
    and out: "output_rows st = map (row_at deflate fq) [0..<(n + 2) div 4]"
    and lim: "0 < Limit args \<longrightarrow> int (read_count st) \<le> Limit args"
    unfolding loop_inv_def n_def by blast+
  show ?thesis
  proof (cases "scan_inputs args 0 st0")
    case (Inl res)
    obtain r st' where res: "res = (r, st')" by (cases res)
    from inner Inl res obtain j where j: "j < length fq"
      "\<forall>j'<j. line_verdict args fq n j' = None" "line_verdict args fq n j = Some r"
      and same: "line_num st' = n" "read_count st' = read_count st0"
        "output_rows st' = output_rows st0"
      by auto
    from same have same': "read_count st' = read_count st" "output_rows st' = output_rows st"
      by (simp_all add: st0_def)
    from j have "\<exists>j<length fq. (\<forall>j'<j. line_verdict args fq (line_num st') j' = None) \<and>
              line_verdict args fq (line_num st') j = Some r"
      unfolding same by blast
    with pre rc out lim same same' False have "run_post deflate args fq (r, st')"
      by (simp add: run_post_def)
    moreover from unfold Inl res have "run_loop deflate args st = Some (r, st')"
      by simp
    ultimately show ?thesis by blast
  next
    case (Inr st1)
    with inner have all: "\<forall>j<length fq. line_verdict args fq n j = None"
      and m1: "mid fq n (length fq) st0 st1"
      by simp_all
    from ne all have "line_verdict args fq n 0 = None" by simp
    then have lt: "n < length (fq ! 0)"
      by (simp add: line_verdict_def split: if_splits)
    from pre all have pre': "\<forall>m<Suc n. \<forall>j<length fq. line_verdict args fq m j = None"
      by (simp add: less_Suc_eq)
    from m1 have sc1: "inputScanners st1 = map (drop (Suc n)) fq"
      and ln1: "line_num st1 = n"
      and rc1: "read_count st1 = read_count st" and out1: "output_rows st1 = output_rows st"
      by (simp_all add: mid_def st0_def)
    show ?thesis
    proof (cases "n mod 4 = 1")
      case True
      with m1 have z1: "zwriter st1 = Open (seq_bytes fq n)" and b1: "read_buf st1 = []"
        and f1: "full_len st1 = seq_len fq n" and rn1: "read_name st1 = read_name st"
        by (simp_all add: mid_def st0_def)
      from inv True have rn: "read_name st = read_ident (fq ! 0 ! (n - 1))"
        by (simp add: loop_inv_def n_def)
      define k where "k = (n + 2) div 4"
      from True have nk: "n = 4 * k + 1"
        unfolding k_def by presburger
      define st2 where "st2 = st1\<lparr>zwriter := Closed (seq_bytes fq n),
          read_buf := zlib_stream deflate (seq_bytes fq n),
          output_rows := output_rows st1 @ [row_at deflate fq k],
          read_count := read_count st1 + 1, line_num := line_num st1 + 1\<rparr>"
      from unfold Inr True ln1 z1 b1 f1 rn1 rn nk
      have "run_loop deflate args st = run_loop deflate args st2"
        by (simp add: st2_def row_at_def Let_def)
      moreover have "loop_inv deflate args fq st2"
        unfolding loop_inv_def
      proof (intro conjI)
        show "inputScanners st2 = map (drop (line_num st2)) fq"
          by (simp add: st2_def sc1 ln1)
        show "\<forall>m<line_num st2. \<forall>j<length fq. line_verdict args fq m j = None"
          using pre' by (simp add: st2_def ln1)
        have l2: "line_num st2 = Suc n" and r2: "read_count st2 = Suc k"
          and o2: "output_rows st2 = map (row_at deflate fq) [0..<Suc k]"
          by (simp_all add: st2_def ln1 rc1 rc out1 out k_def)
        from True have "(Suc n + 2) div 4 = Suc k"
          unfolding k_def by presburger
        with l2 r2 o2 show "read_count st2 = (line_num st2 + 2) div 4"
          and "output_rows st2 = map (row_at deflate fq) [0..<(line_num st2 + 2) div 4]"
          by simp_all
        show "0 < Limit args \<longrightarrow> int (read_count st2) \<le> Limit args"
          using False by (auto simp: st2_def rc1)
        show "line_num st2 mod 4 = 1 \<longrightarrow>
          read_name st2 = read_ident (fq ! 0 ! (line_num st2 - 1)) \<and> read_buf st2 = [] \<and>
          zwriter st2 = Open []"
          using True by (simp add: st2_def ln1 mod_Suc)
      qed
      moreover have "line_num st2 = Suc (line_num st)"
        by (simp add: st2_def ln1 n_def)
      ultimately show ?thesis
        using lt unfolding n_def by blast
    next
      case False
      define st2 where "st2 = st1\<lparr>line_num := line_num st1 + 1\<rparr>"
      from unfold Inr False ln1
      have "run_loop deflate args st = run_loop deflate args st2"
        by (simp add: st2_def)
      moreover have "loop_inv deflate args fq st2"
        unfolding loop_inv_def
      proof (intro conjI)
        show "inputScanners st2 = map (drop (line_num st2)) fq"
          by (simp add: st2_def sc1 ln1)
        show "\<forall>m<line_num st2. \<forall>j<length fq. line_verdict args fq m j = None"
          using pre' by (simp add: st2_def ln1)
        have l2: "line_num st2 = Suc n" and r2: "read_count st2 = (n + 2) div 4"
          and o2: "output_rows st2 = map (row_at deflate fq) [0..<(n + 2) div 4]"
          by (simp_all add: st2_def ln1 rc1 rc out1 out)
        from False have "(Suc n + 2) div 4 = (n + 2) div 4"
          by presburger
        with l2 r2 o2 show "read_count st2 = (line_num st2 + 2) div 4"
          and "output_rows st2 = map (row_at deflate fq) [0..<(line_num st2 + 2) div 4]"
          by simp_all
        show "0 < Limit args \<longrightarrow> int (read_count st2) \<le> Limit args"
          using lim by (simp add: st2_def rc1)
        show "line_num st2 mod 4 = 1 \<longrightarrow>
          read_name st2 = read_ident (fq ! 0 ! (line_num st2 - 1)) \<and> read_buf st2 = [] \<and>
          zwriter st2 = Open []"
        proof
          assume "line_num st2 mod 4 = 1"
          then have "n mod 4 = 0"
            unfolding st2_def by (simp add: ln1) presburger
          with m1 ne show "read_name st2 = read_ident (fq ! 0 ! (line_num st2 - 1)) \<and>
              read_buf st2 = [] \<and> zwriter st2 = Open []"
            by (simp add: mid_def st2_def)
        qed
      qed
      moreover have "line_num st2 = Suc (line_num st)"
        by (simp add: st2_def ln1 n_def)
      ultimately show ?thesis
        using lt unfolding n_def by blast
    qed
  qed
qed

lemma run_loop_inv:
  assumes "fq \<noteq> []" and "loop_inv deflate args fq st"
  shows "\<exists>res. run_loop deflate args st = Some res \<and> run_post deflate args fq res"
  using assms(2)
proof (induction "length (fq ! 0) - line_num st" arbitrary: st rule: less_induct)
  case less
  from run_loop_step [OF assms(1) less.prems] show ?case
  proof
    assume "\<exists>res. run_loop deflate args st = Some res \<and> run_post deflate args fq res"
    then show ?thesis .
  next
    assume "\<exists>st'. run_loop deflate args st = run_loop deflate args st' \<and>
       loop_inv deflate args fq st' \<and> line_num st' = Suc (line_num st) \<and>
       line_num st < length (fq ! 0)"
    then obtain st' where eq: "run_loop deflate args st = run_loop deflate args st'"
      and inv': "loop_inv deflate args fq st'" and ln: "line_num st' = Suc (line_num st)"
      and lt: "line_num st < length (fq ! 0)"
      by blast
    from ln lt have "length (fq ! 0) - line_num st' < length (fq ! 0) - line_num st"
      by simp
    from less.hyps [OF this inv'] eq show ?thesis by simp
  qed
qed

lemma init_inv: "loop_inv deflate args fq (init fq)"
  by (simp add: loop_inv_def init_def)

lemma main_post:
  assumes "fq \<noteq> []"
  shows "\<exists>res. main deflate args fq = Some res \<and> run_post deflate args fq res"
  unfolding main_def using run_loop_inv [OF assms init_inv] .

lemma main_no_inputs: "main deflate args [] = Some (Panic, (init [])\<lparr>line_num := 1\<rparr>)"
  by (simp add: main_def init_def run_loop.simps scan_inputs.simps)

subsection \<open>The result of a run\<close>

lemma verdict_None_iff:
  "line_verdict args fq n i = None \<longleftrightarrow>
     n < length (fq ! i) \<and> (n mod 4 = 0 \<longrightarrow> header_ok args fq n i)"
  by (auto simp: line_verdict_def header_ok_def)

lemma lines_ok_verdict:
  "lines_ok args fq n \<longleftrightarrow> (\<forall>m<n. \<forall>i<length fq. line_verdict args fq m i = None)"
proof
  assume "lines_ok args fq n"
  then show "\<forall>m<n. \<forall>i<length fq. line_verdict args fq m i = None"
    by (auto simp: lines_ok_def verdict_None_iff)
next
  assume a: "\<forall>m<n. \<forall>i<length fq. line_verdict args fq m i = None"
  show "lines_ok args fq n"
    unfolding lines_ok_def
  proof (intro allI impI conjI)
    fix i assume i: "i < length fq"
    show "n \<le> length (fq ! i)"
    proof (rule ccontr)
      assume "\<not> n \<le> length (fq ! i)"
      then have "length (fq ! i) < n" by simp
      with a i have "line_verdict args fq (length (fq ! i)) i = None" by blast
      then show False by (simp add: verdict_None_iff)
    qed
    fix m assume "m < n" "m mod 4 = 0"
    with a i show "header_ok args fq m i"
      by (simp add: verdict_None_iff)
  qed
qed

lemma main_total: "\<exists>res. main deflate args fq = Some res"
proof (cases "fq = []")
  case True
  then show ?thesis by (simp add: main_no_inputs)
next
  case False
  from main_post [OF this] show ?thesis by blast
qed

lemma main_facts:
  assumes "main deflate args fq = Some (r, st)"
  shows "read_count st = (line_num st + 2) div 4"
    and "output_rows st = map (row_at deflate fq) [0..<(line_num st + 2) div 4]"
    and "lines_ok args fq (line_num st) \<or> fq = []"
    and "0 < Limit args \<longrightarrow> int (read_count st) \<le> Limit args"
proof -
  have "read_count st = (line_num st + 2) div 4 \<and>
      output_rows st = map (row_at deflate fq) [0..<(line_num st + 2) div 4] \<and>
      (lines_ok args fq (line_num st) \<or> fq = []) \<and>
      (0 < Limit args \<longrightarrow> int (read_count st) \<le> Limit args)"
  proof (cases "fq = []")
    case True
    with assms show ?thesis
      by (auto simp: main_no_inputs init_def)
  next
    case False
    from main_post [OF this, of deflate args] assms
    have "run_post deflate args fq (r, st)" by auto
    then show ?thesis
      unfolding run_post_def lines_ok_verdict by blast
  qed
  then show "read_count st = (line_num st + 2) div 4"
    and "output_rows st = map (row_at deflate fq) [0..<(line_num st + 2) div 4]"
    and "lines_ok args fq (line_num st) \<or> fq = []"
    and "0 < Limit args \<longrightarrow> int (read_count st) \<le> Limit args"
    by blast+
qed

lemma main_rows:
  assumes "main deflate args fq = Some (r, st)" and "k < length (output_rows st)"
  shows "output_rows st ! k = row_at deflate fq k"
    and "\<forall>i<length fq. 4 * k + 1 < length (fq ! i)"
    and "\<forall>i<length fq. header_ok args fq (4 * k) i"
proof -
  note f = main_facts [OF assms(1)]
  from f(2) assms(2) have k: "k < (line_num st + 2) div 4" by simp
  with f(2) show "output_rows st ! k = row_at deflate fq k" by simp
  from k have lt: "4 * k + 2 \<le> line_num st" by presburger
  from f(3) lt show "\<forall>i<length fq. 4 * k + 1 < length (fq ! i)"
    by (auto simp: lines_ok_def)
  from f(3) lt show "\<forall>i<length fq. header_ok args fq (4 * k) i"
    by (auto simp: lines_ok_def)
qed

lemma main_end:
  assumes "fq \<noteq> []" and "main deflate args fq = Some (r, st)"
  shows "(r = Done \<and> 0 < Limit args \<and> int (read_count st) = Limit args) \<or>
         (\<not> (0 < Limit args \<and> Limit args \<le> int (read_count st)) \<and>
          (\<exists>j<length fq. (\<forall>j'<j. line_verdict args fq (line_num st) j' = None) \<and>
               line_verdict args fq (line_num st) j = Some r))"
proof -
  from main_post [OF assms(1), of deflate args] assms(2)
  have "run_post deflate args fq (r, st)" by auto
  then show ?thesis
    unfolding run_post_def by blast
qed

lemma main_stops_at:
  assumes ne: "fq \<noteq> []" and ok: "lines_ok args fq n"
    and j: "j < length fq" "\<forall>j'<j. line_verdict args fq n j' = None"
      "line_verdict args fq n j = Some r"
    and lim: "Limit args \<le> 0 \<or> int ((n + 2) div 4) < Limit args"
  shows "\<exists>st. main deflate args fq = Some (r, st) \<and> line_num st = n \<and>
           output_rows st = map (row_at deflate fq) [0..<(n + 2) div 4]"
proof -
  from main_total obtain r' st where res: "main deflate args fq = Some (r', st)"
    by (metis surj_pair)
  note f = main_facts [OF res]
  note e = main_end [OF ne res]
  from f(3) ne have ok': "\<forall>m<line_num st. \<forall>i<length fq. line_verdict args fq m i = None"
    by (simp add: lines_ok_verdict)
  from ok have okn: "\<forall>m<n. \<forall>i<length fq. line_verdict args fq m i = None"
    by (simp add: lines_ok_verdict)
  have "\<not> n < line_num st"
    using ok' j(1,3) by auto
  moreover have "\<not> line_num st < n"
  proof
    assume less: "line_num st < n"
    then have "(line_num st + 2) div 4 \<le> (n + 2) div 4"
      by (intro div_le_mono) simp
    with lim f(1) have "\<not> (0 < Limit args \<and> int (read_count st) = Limit args)"
      by auto
    with e obtain j2 where "j2 < length fq" "line_verdict args fq (line_num st) j2 = Some r'"
      by blast
    with okn less show False by auto
  qed
  ultimately have n: "line_num st = n" by simp
  from lim f(1) n have "\<not> (0 < Limit args \<and> int (read_count st) = Limit args)"
    by auto
  with e n obtain j2 where j2: "j2 < length fq" "\<forall>j'<j2. line_verdict args fq n j' = None"
    "line_verdict args fq n j2 = Some r'"
    by blast
  have "j2 = j"
  proof (rule ccontr)
    assume "j2 \<noteq> j"
    then consider "j2 < j" | "j < j2" by linarith
    then show False
      using j j2 by cases auto
  qed
  with j2 j have "r' = r" by simp
  with res n f(2) show ?thesis by simp
qed

subsection \<open>The library functions\<close>

lemma adler32_bytes_length: "length (adler32_bytes p) = 4"
  by (simp add: adler32_bytes_def split: prod.splits)

lemma zlib_stream_length: "length (zlib_stream deflate p) = 2 + length (deflate p) + 4"
  by (simp add: zlib_stream_def adler32_bytes_length)

lemma stored_block_length: "length (stored_block p) = 5 + length p"
  by (simp add: stored_block_def Let_def)


lemma round_half_even_ge: "of_int k \<le> x \<Longrightarrow> k \<le> round_half_even x"
  unfolding round_half_even_def Let_def
  by (auto simp: le_floor_iff) linarith+

lemma ilog2_bounds:
  assumes "0 < x"
  shows "2 powi ilog2 x \<le> x" and "x < 2 powi (ilog2 x + 1)"
proof -
  have "2 powi ilog2 x \<le> x \<and> x < 2 powi (ilog2 x + 1)"
  proof (cases "1 \<le> x")
    case True
    define n where "n = nat \<lfloor>x\<rfloor>"
    from True have n: "0 < n" and nx: "of_nat n \<le> x" and xn: "x < of_nat n + 1"
      unfolding n_def by (simp_all add: le_floor_iff) linarith+
    define t where "t = floorlog 2 n"
    from floorlog_bounds [of n 2] n have b: "2 ^ (t - 1) \<le> n" "n < 2 ^ t"
      unfolding t_def by simp_all
    from b n have t: "0 < t" by (cases t) auto
    from True have e: "ilog2 x = int (t - 1)"
      using t by (simp add: ilog2_def n_def t_def)
    from b(1) have "(2::rat) ^ (t - 1) \<le> of_nat n"
      by (metis of_nat_le_iff of_nat_numeral of_nat_power)
    with nx have lo: "(2::rat) ^ (t - 1) \<le> x" by linarith
    from b(2) have "n + 1 \<le> 2 ^ t" by simp
    from of_nat_mono [OF this, where 'a = rat] have "of_nat n + 1 \<le> (2::rat) ^ t"
      by simp
    with xn have hi: "x < (2::rat) ^ t" by linarith
    from t have "int (t - 1) + 1 = int t" by simp
    with e have "2 powi ilog2 x = (2::rat) ^ (t - 1)" "2 powi (ilog2 x + 1) = (2::rat) ^ t"
      by (simp_all only: power_int_of_nat)
    with lo hi show ?thesis
      by simp
  next
    case False
    define y where "y = 1 / x"
    from False assms have y: "1 < y" unfolding y_def by simp
    define m where "m = nat (\<lceil>y\<rceil> - 1)"
    from y have c: "2 \<le> \<lceil>y\<rceil>" by (simp add: le_ceiling_iff) 
    then have m: "0 < m" and ym: "y \<le> of_nat m + 1" and my: "of_nat m < y"
      unfolding m_def by (simp_all add: ) linarith+
    define t where "t = floorlog 2 m"
    from floorlog_bounds [of m 2] m have b: "2 ^ (t - 1) \<le> m" "m < 2 ^ t"
      unfolding t_def by simp_all
    from b m have t: "0 < t" by (cases t) auto
    from False have e: "ilog2 x = - int t"
      by (simp add: ilog2_def m_def t_def y_def)
    from b(1) have "(2::rat) ^ (t - 1) \<le> of_nat m"
      by (metis of_nat_le_iff of_nat_numeral of_nat_power)
    with my have lo: "(2::rat) ^ (t - 1) < y" by linarith
    from b(2) have "m + 1 \<le> 2 ^ t" by simp
    from of_nat_mono [OF this, where 'a = rat] have "of_nat m + 1 \<le> (2::rat) ^ t"
      by simp
    with ym have hi: "y \<le> (2::rat) ^ t" by linarith
    from hi assms have 1: "1 / 2 ^ t \<le> x"
      unfolding y_def by (simp add: field_simps)
    from lo assms have 2: "x < 1 / 2 ^ (t - 1)"
      unfolding y_def by (simp add: field_simps)
    have p1: "(2::rat) powi (- int t) = 1 / 2 ^ t"
      by (simp add: power_int_minus field_simps)
    from t have "- int t + 1 = - int (t - 1)" by simp
    then have "(2::rat) powi (- int t + 1) = 2 powi (- int (t - 1))"
      by (simp only:)
    also have "\<dots> = inverse (2 ^ (t - 1))"
      by (simp only: power_int_minus power_int_of_nat)
    finally have p2: "(2::rat) powi (- int t + 1) = 1 / 2 ^ (t - 1)"
      by (simp add: inverse_eq_divide)
    from 1 2 show ?thesis
      unfolding e p1 p2 by simp
  qed
  then show "2 powi ilog2 x \<le> x" and "x < 2 powi (ilog2 x + 1)" by simp_all
qed

lemma round_f64_pos:
  assumes "0 < x"
  shows "0 < round_f64 x"
proof -
  define e where "e = ilog2 x"
  have "x * 2 powi (52 - e) \<ge> 2 powi e * 2 powi (52 - e)"
    using ilog2_bounds(1) [OF assms] unfolding e_def
    by (intro mult_right_mono) simp_all
  also have "2 powi e * 2 powi (52 - e) = (2::rat) powi 52"
    by (simp flip: power_int_add)
  finally have "of_int 1 \<le> x * 2 powi (52 - e)"
    by (simp add: power_int_def) 
  from round_half_even_ge [OF this] have "0 < round_half_even (x * 2 powi (52 - e))"
    by simp
  then have "0 < (of_int (round_half_even (x * 2 powi (52 - e))) :: rat) * 2 powi (e - 52)"
    by (intro mult_pos_pos) simp_all
  with assms show ?thesis
    by (simp add: round_f64_def e_def Let_def)
qed

lemma digit_char_simps:
  "digit_char 0 = CHR ''0''" "digit_char 1 = CHR ''1''" "digit_char 2 = CHR ''2''"
  "digit_char 3 = CHR ''3''" "digit_char 4 = CHR ''4''" "digit_char 5 = CHR ''5''"
  "digit_char 6 = CHR ''6''" "digit_char 7 = CHR ''7''" "digit_char 8 = CHR ''8''"
  "digit_char 9 = CHR ''9''" "digit_char (Suc 0) = CHR ''1''"
  by code_simp+

lemma float64_of_pos: "0 < n \<Longrightarrow> \<exists>y. float64_of n = Finite y \<and> 0 < y"
  by (simp add: float64_of_def round_f64_pos)

lemma float64_div_finite:
  assumes "0 < n"
  shows "\<exists>x. float64_div (float64_of m) (float64_of n) = Finite x"
proof -
  from float64_of_pos [OF assms] obtain y where "float64_of n = Finite y" "0 < y"
    by blast
  then show ?thesis
    by (simp add: float64_of_def)
qed

lemma verdict_Desync:
  "line_verdict args fq n j = Some (Failed (Desync i)) \<Longrightarrow> i = j \<and> j \<noteq> 0 \<and> length (fq ! j) \<le> n"
  by (auto simp: line_verdict_def split: if_splits)

lemma verdict_exhausted:
  "length (fq ! j) \<le> n \<Longrightarrow>
   line_verdict args fq n j = Some (if j = 0 then Done else Failed (Desync j))"
  by (simp add: line_verdict_def)

lemma verdict_Panic: "line_verdict args fq n j \<noteq> Some Panic"
  by (simp add: line_verdict_def)


lemma verdict_single:
  assumes "\<forall>m<length s. m mod 4 = 0 \<longrightarrow> HasPrefix (s ! m) ''@''"
  shows "line_verdict args [s] n 0 = (if length s \<le> n then Some Done else None)"
  using assms by (auto simp: line_verdict_def)

lemma dec_digit: "n < 10 \<Longrightarrow> dec n = [digit_char n]"
  by (subst dec.simps) simp










text \<open>The equations that evaluate a run on given inputs.\<close>

lemmas run_eval = main_def init_def default_args_def run_loop.simps scan_inputs.simps
  scan_input_def HasPrefix_def read_ident_def zlib_stream_length stored_block_length

lemma lines_ok_0: "lines_ok args fq 0"
  by (simp add: lines_ok_def)

lemma lines_ok_Suc:
  "lines_ok args fq (Suc n) \<longleftrightarrow>
     lines_ok args fq n \<and>
     (\<forall>i\<in>set [0..<length fq]. n < length (fq ! i) \<and> (n mod 4 = 0 \<longrightarrow> header_ok args fq n i))"
proof -
  have "(\<forall>m<Suc n. P m) \<longleftrightarrow> (\<forall>m<n. P m) \<and> P n" for P
    by (auto simp: less_Suc_eq)
  then show ?thesis
    unfolding lines_ok_def by (auto simp: Suc_le_eq)
qed


lemma lines_ok_numeral:
  "lines_ok args fq (numeral k) \<longleftrightarrow>
     lines_ok args fq (pred_numeral k) \<and>
     (\<forall>i\<in>set [0..<length fq]. pred_numeral k < length (fq ! i) \<and>
        (pred_numeral k mod 4 = 0 \<longrightarrow> header_ok args fq (pred_numeral k) i))"
  by (simp only: numeral_eq_Suc lines_ok_Suc)

lemmas lines_ok_eval = lines_ok_0 lines_ok_Suc lines_ok_numeral header_ok_def HasPrefix_def
  read_ident_def default_args_def

section \<open>The claims\<close>

text \<open>
  C1. The claim: on two inputs only the first input's sequence line is counted and
  compressed. It fails: the branch for the sequence line has no test on the input
  index. With the sequence lines \<open>AC\<close> and \<open>GGG\<close> the row reports the raw length 5 and
  the container of the seven bytes \<open>AC\<close>, newline, \<open>GGG\<close>, newline; the first input alone
  gives the raw length 2 and the container of three bytes.
\<close>

theorem second_sequence_counted:
  "main stored_block default_args
      [[''@r'', ''AC'', ''+'', ''II''], [''@r'', ''GGG'', ''+'', ''III'']] =
     Some (Done, \<lparr>inputScanners = [[], []], line_num = 4, read_count = 1, read_name = ''r'',
        read_buf = zlib_stream stored_block (''AC'' @ [CHR 0x0A] @ ''GGG'' @ [CHR 0x0A]),
        zwriter = Closed (''AC'' @ [CHR 0x0A] @ ''GGG'' @ [CHR 0x0A]), full_len = 0,
        output_rows = [Fprintf_row ''r'' 5 18 (float64_div (float64_of 5) (float64_of 18))]\<rparr>) \<and>
   main stored_block default_args [[''@r'', ''AC'', ''+'', ''II'']] =
     Some (Done, \<lparr>inputScanners = [[]], line_num = 4, read_count = 1, read_name = ''r'',
        read_buf = zlib_stream stored_block (''AC'' @ [CHR 0x0A]),
        zwriter = Closed (''AC'' @ [CHR 0x0A]), full_len = 0,
        output_rows = [Fprintf_row ''r'' 2 14 (float64_div (float64_of 2) (float64_of 14))]\<rparr>)"
  by (simp add: run_eval) (simp add: eval_nat_numeral)

text \<open>
  C1, as the code has it (its header comment: the reads are concatenated for paired-end
  data). On two inputs, every row that is written belongs to a read whose header and
  sequence lines both inputs have; its raw length is the sum of the lengths of the two
  sequence lines, and its compressed length is the size of the container of the first
  input's sequence line and a newline followed by the second input's sequence line and a
  newline; the ratio is computed from these two numbers.
\<close>

theorem both_sequences_measured:
  assumes "main deflate args [s0, s1] = Some (r, st)"
  shows "\<forall>k<length (output_rows st).
           4 * k + 1 < length s0 \<and> 4 * k + 1 < length s1 \<and>
           output_rows st ! k =
             Fprintf_row (read_ident (s0 ! (4 * k)))
               (length (s0 ! (4 * k + 1)) + length (s1 ! (4 * k + 1)))
               (length (zlib_stream deflate
                  (s0 ! (4 * k + 1) @ [CHR 0x0A] @ s1 ! (4 * k + 1) @ [CHR 0x0A])))
               (float64_div
                  (float64_of (length (s0 ! (4 * k + 1)) + length (s1 ! (4 * k + 1))))
                  (float64_of (length (zlib_stream deflate
                     (s0 ! (4 * k + 1) @ [CHR 0x0A] @ s1 ! (4 * k + 1) @ [CHR 0x0A])))))"
proof (intro allI impI)
  fix k assume k: "k < length (output_rows st)"
  from main_rows(2) [OF assms k] have "4 * k + 1 < length s0" "4 * k + 1 < length s1"
    by (auto simp: less_Suc_eq nth_Cons')
  moreover from main_rows(1) [OF assms k]
  have "output_rows st ! k = row_at deflate [s0, s1] k" .
  ultimately show "4 * k + 1 < length s0 \<and> 4 * k + 1 < length s1 \<and>
           output_rows st ! k =
             Fprintf_row (read_ident (s0 ! (4 * k)))
               (length (s0 ! (4 * k + 1)) + length (s1 ! (4 * k + 1)))
               (length (zlib_stream deflate
                  (s0 ! (4 * k + 1) @ [CHR 0x0A] @ s1 ! (4 * k + 1) @ [CHR 0x0A])))
               (float64_div
                  (float64_of (length (s0 ! (4 * k + 1)) + length (s1 ! (4 * k + 1))))
                  (float64_of (length (zlib_stream deflate
                     (s0 ! (4 * k + 1) @ [CHR 0x0A] @ s1 ! (4 * k + 1) @ [CHR 0x0A])))))"
    by (simp add: row_at_def seq_len_def seq_bytes_def Let_def)
qed

theorem both_sequences_measured_witness:
  "\<exists>r st. main stored_block default_args
            [[''@r'', ''AC'', ''+'', ''II''], [''@r'', ''GGG'', ''+'', ''III'']] = Some (r, st) \<and>
      0 < length (output_rows st) \<and>
      4 * 0 + 1 < length [''@r'', ''AC'', ''+'', ''II''] \<and>
      4 * 0 + 1 < length [''@r'', ''GGG'', ''+'', ''III''] \<and>
      output_rows st ! 0 =
        Fprintf_row ''r'' (length ''AC'' + length ''GGG'')
          (length (zlib_stream stored_block (''AC'' @ [CHR 0x0A] @ ''GGG'' @ [CHR 0x0A])))
          (float64_div (float64_of (length ''AC'' + length ''GGG''))
             (float64_of (length (zlib_stream stored_block
                (''AC'' @ [CHR 0x0A] @ ''GGG'' @ [CHR 0x0A])))))"
proof -
  have e: "main stored_block default_args
      [[''@r'', ''AC'', ''+'', ''II''], [''@r'', ''GGG'', ''+'', ''III'']] =
     Some (Done, \<lparr>inputScanners = [[], []], line_num = 4, read_count = 1, read_name = ''r'',
        read_buf = zlib_stream stored_block (''AC'' @ [CHR 0x0A] @ ''GGG'' @ [CHR 0x0A]),
        zwriter = Closed (''AC'' @ [CHR 0x0A] @ ''GGG'' @ [CHR 0x0A]), full_len = 0,
        output_rows = [Fprintf_row ''r'' 5 18 (float64_div (float64_of 5) (float64_of 18))]\<rparr>)"
    by (simp add: run_eval) (simp add: eval_nat_numeral)
  from both_sequences_measured [OF e] e show ?thesis
    by (simp add: read_ident_def)
qed

text \<open>
  C2. The claim: a row is written only when every input has given all four lines of the
  read, at the quality line. It fails: the row is written in the round of the sequence
  line. An input that ends after its first sequence line still gives a row, and the run
  ends \<open>Done\<close>.
\<close>

theorem truncated_record_row:
  "main stored_block default_args [[''@r'', ''ACGT'']] =
     Some (Done, \<lparr>inputScanners = [[]], line_num = 2, read_count = 1, read_name = ''r'',
        read_buf = zlib_stream stored_block (''ACGT'' @ [CHR 0x0A]),
        zwriter = Closed (''ACGT'' @ [CHR 0x0A]), full_len = 0,
        output_rows = [Fprintf_row ''r'' 4 16 (float64_div (float64_of 4) (float64_of 16))]\<rparr>)"
  by (simp add: run_eval) (simp add: eval_nat_numeral)

text \<open>
  C2, as the code has it. The measurement is finalized and the row written at the end of
  the round of the sequence line (offset 1): the number of rows is the number of such
  rounds completed, \<open>(line_num + 2) div 4\<close>. A row for read \<open>k\<close> is written only after
  every input has given the header and the sequence line of read \<open>k\<close>. And it is written
  as soon as they have: when every input has its first \<open>4 k + 2\<close> lines with headers that
  pass the checks and the limit allows read \<open>k\<close>, row \<open>k\<close> is in the output, whether or
  not a separator or quality line follows.
\<close>

theorem row_after_sequence_line:
  assumes "main deflate args fq = Some (r, st)"
  shows "length (output_rows st) = (line_num st + 2) div 4 \<and>
         (\<forall>k<length (output_rows st). \<forall>i<length fq. 4 * k + 1 < length (fq ! i)) \<and>
         (\<forall>k. fq \<noteq> [] \<and> lines_ok args fq (4 * k + 2) \<and> (Limit args \<le> 0 \<or> int k < Limit args)
              \<longrightarrow> k < length (output_rows st))"
proof (intro conjI allI impI)
  note f = main_facts [OF assms]
  from f(2) show len: "length (output_rows st) = (line_num st + 2) div 4"
    by simp
  show "4 * k + 1 < length (fq ! i)" if "k < length (output_rows st)" "i < length fq" for k i
    using main_rows(2) [OF assms that(1)] that(2) by simp
  show "k < length (output_rows st)"
    if h: "fq \<noteq> [] \<and> lines_ok args fq (4 * k + 2) \<and> (Limit args \<le> 0 \<or> int k < Limit args)" for k
  proof (rule ccontr)
    assume "\<not> k < length (output_rows st)"
    with len have le: "(line_num st + 2) div 4 \<le> k" by simp
    then have lt: "line_num st < 4 * k + 2" by presburger
    from h have ne: "fq \<noteq> []" and ok: "lines_ok args fq (4 * k + 2)"
      and lim: "Limit args \<le> 0 \<or> int k < Limit args"
      by simp_all
    from lim le f(1) have "\<not> (0 < Limit args \<and> int (read_count st) = Limit args)"
      by auto
    with main_end [OF ne assms] obtain j where "j < length fq"
      "line_verdict args fq (line_num st) j = Some r"
      by blast
    with ok lt show False
      by (auto simp: lines_ok_verdict)
  qed
qed

theorem row_after_sequence_line_witness:
  "\<exists>r st. main stored_block default_args [[''@r'', ''ACGT'']] = Some (r, st) \<and>
      lines_ok default_args [[''@r'', ''ACGT'']] (4 * 0 + 2) \<and> Limit default_args \<le> 0 \<and>
      length (output_rows st) = (line_num st + 2) div 4 \<and> 0 < length (output_rows st) \<and>
      4 * 0 + 1 < length ([[''@r'', ''ACGT'']] ! 0)"
proof -
  have e: "main stored_block default_args [[''@r'', ''ACGT'']] =
     Some (Done, \<lparr>inputScanners = [[]], line_num = 2, read_count = 1, read_name = ''r'',
        read_buf = zlib_stream stored_block (''ACGT'' @ [CHR 0x0A]),
        zwriter = Closed (''ACGT'' @ [CHR 0x0A]), full_len = 0,
        output_rows = [Fprintf_row ''r'' 4 16 (float64_div (float64_of 4) (float64_of 16))]\<rparr>)"
    by (simp add: run_eval) (simp add: eval_nat_numeral)
  have ok: "lines_ok default_args [[''@r'', ''ACGT'']] (4 * 0 + 2)"
    by (simp add: lines_ok_eval)
  from row_after_sequence_line [OF e] ok e show ?thesis
    by (simp add: default_args_def)
qed

text \<open>
  C3. The claim: when one of two inputs has fewer complete cycles, the run fails with a
  Desync error, whichever input is the shorter one. It fails when the primary input is
  the shorter one: a failed scan of input 0 returns \<^verbatim>\<open>nil\<close>. With one read in the
  first input and two in the second, the run ends \<open>Done\<close> after one row, the second
  read of the second input unread.
\<close>

theorem shorter_primary_done:
  "main stored_block default_args
      [[''@a'', ''A'', ''+'', ''I''], [''@a'', ''A'', ''+'', ''I'', ''@b'', ''C'', ''+'', ''I'']] =
     Some (Done, \<lparr>inputScanners = [[], [''@b'', ''C'', ''+'', ''I'']], line_num = 4,
        read_count = 1, read_name = ''a'',
        read_buf = zlib_stream stored_block (''A'' @ [CHR 0x0A] @ ''A'' @ [CHR 0x0A]),
        zwriter = Closed (''A'' @ [CHR 0x0A] @ ''A'' @ [CHR 0x0A]), full_len = 0,
        output_rows = [Fprintf_row ''a'' 2 15 (float64_div (float64_of 2) (float64_of 15))]\<rparr>)"
  by (simp add: run_eval) (simp add: eval_nat_numeral)?

text \<open>
  C3, as the code has it. On two inputs the run always ends. When the secondary input
  has fewer lines than the primary (so also when it has fewer complete cycles), all
  lines before its end are there with headers that pass the checks, the primary's line
  at that position passes the header check when it is a header line, and the limit is
  not reached first, the run fails with the Desync error of scanner 1, in the round of
  the first line the secondary input lacks. When the primary input has no more lines
  than the secondary, the run never fails with a Desync error, and ends \<open>Done\<close> when
  the headers before the primary's end pass the checks.
\<close>

theorem desync_when_secondary_shorter:
  "(\<exists>res. main deflate args [s0, s1] = Some res) \<and>
   (length s1 < length s0 \<and> lines_ok args [s0, s1] (length s1) \<and>
    (length s1 mod 4 = 0 \<longrightarrow> HasPrefix (s0 ! length s1) ''@'') \<and>
    (Limit args \<le> 0 \<or> int ((length s1 + 2) div 4) < Limit args) \<longrightarrow>
      (\<exists>st. main deflate args [s0, s1] = Some (Failed (Desync 1), st) \<and>
            line_num st = length s1)) \<and>
   (length s0 \<le> length s1 \<longrightarrow>
      (\<forall>i st. main deflate args [s0, s1] \<noteq> Some (Failed (Desync i), st))) \<and>
   (length s0 \<le> length s1 \<and> lines_ok args [s0, s1] (length s0) \<longrightarrow>
      (\<exists>st. main deflate args [s0, s1] = Some (Done, st)))"
proof (intro conjI impI)
  show "\<exists>res. main deflate args [s0, s1] = Some res"
    by (rule main_total)
next
  assume h: "length s1 < length s0 \<and> lines_ok args [s0, s1] (length s1) \<and>
    (length s1 mod 4 = 0 \<longrightarrow> HasPrefix (s0 ! length s1) ''@'') \<and>
    (Limit args \<le> 0 \<or> int ((length s1 + 2) div 4) < Limit args)"
  then have v0: "\<forall>j'<1. line_verdict args [s0, s1] (length s1) j' = None"
    by (simp add: verdict_None_iff header_ok_def)
  have v1: "line_verdict args [s0, s1] (length s1) 1 = Some (Failed (Desync 1))"
    by (simp add: line_verdict_def)
  from main_stops_at [of "[s0, s1]" args "length s1" 1, OF _ _ _ v0 v1] h
  show "\<exists>st. main deflate args [s0, s1] = Some (Failed (Desync 1), st) \<and>
            line_num st = length s1"
    by auto
next
  assume le: "length s0 \<le> length s1"
  show "\<forall>i st. main deflate args [s0, s1] \<noteq> Some (Failed (Desync i), st)"
  proof (intro allI notI)
    fix i st assume res: "main deflate args [s0, s1] = Some (Failed (Desync i), st)"
    from main_end [OF _ res] obtain j where j: "j < length [s0, s1]"
      "\<forall>j'<j. line_verdict args [s0, s1] (line_num st) j' = None"
      "line_verdict args [s0, s1] (line_num st) j = Some (Failed (Desync i))"
      by auto
    from verdict_Desync [OF j(3)] j(1) have j1: "j = 1" and short: "length s1 \<le> line_num st"
      by (auto simp: less_Suc_eq)
    from j(2) j1 have "line_verdict args [s0, s1] (line_num st) 0 = None" by simp
    then have "line_num st < length s0"
      by (simp add: verdict_None_iff)
    with short le show False by simp
  qed
next
  assume h: "length s0 \<le> length s1 \<and> lines_ok args [s0, s1] (length s0)"
  from main_total obtain r st where res: "main deflate args [s0, s1] = Some (r, st)"
    by (metis surj_pair)
  have "r = Done"
  proof (rule ccontr)
    assume nd: "r \<noteq> Done"
    with main_end [OF _ res] obtain j where j: "j < length [s0, s1]"
      "\<forall>j'<j. line_verdict args [s0, s1] (line_num st) j' = None"
      "line_verdict args [s0, s1] (line_num st) j = Some r"
      by auto
    from main_facts(3) [OF res] have ok: "lines_ok args [s0, s1] (line_num st)"
      by simp
    then have "line_num st \<le> length s0"
      by (auto simp: lines_ok_def)
    moreover have "\<not> line_num st < length s0"
    proof
      assume "line_num st < length s0"
      with h j(1) have "line_verdict args [s0, s1] (line_num st) j = None"
        by (simp add: lines_ok_verdict)
      with j(3) show False by simp
    qed
    ultimately have n: "line_num st = length s0" by simp
    then have v: "line_verdict args [s0, s1] (line_num st) 0 = Some Done"
      by (simp add: line_verdict_def)
    with j(2) have "j = 0" by (cases j) auto
    with j(3) v nd show False by simp
  qed
  with res show "\<exists>st. main deflate args [s0, s1] = Some (Done, st)" by blast
qed

theorem desync_when_secondary_shorter_witness:
  "length [''@a'', ''A'', ''+'', ''I''] <
     length [''@a'', ''A'', ''+'', ''I'', ''@b'', ''C'', ''+'', ''I''] \<and>
   lines_ok default_args
     [[''@a'', ''A'', ''+'', ''I'', ''@b'', ''C'', ''+'', ''I''], [''@a'', ''A'', ''+'', ''I'']]
     (length [''@a'', ''A'', ''+'', ''I'']) \<and>
   HasPrefix ([''@a'', ''A'', ''+'', ''I'', ''@b'', ''C'', ''+'', ''I''] !
     length [''@a'', ''A'', ''+'', ''I'']) ''@'' \<and>
   Limit default_args \<le> 0 \<and>
   (\<exists>st. main stored_block default_args
      [[''@a'', ''A'', ''+'', ''I'', ''@b'', ''C'', ''+'', ''I''], [''@a'', ''A'', ''+'', ''I'']] =
        Some (Failed (Desync 1), st) \<and>
      line_num st = length [''@a'', ''A'', ''+'', ''I''])"
proof -
  have 1: "length [''@a'', ''A'', ''+'', ''I''] <
     length [''@a'', ''A'', ''+'', ''I'', ''@b'', ''C'', ''+'', ''I'']"
    by simp
  have 2: "lines_ok default_args
     [[''@a'', ''A'', ''+'', ''I'', ''@b'', ''C'', ''+'', ''I''], [''@a'', ''A'', ''+'', ''I'']]
     (length [''@a'', ''A'', ''+'', ''I''])"
    by (simp add: lines_ok_eval)
  have 3: "HasPrefix ([''@a'', ''A'', ''+'', ''I'', ''@b'', ''C'', ''+'', ''I''] !
     length [''@a'', ''A'', ''+'', ''I'']) ''@''"
    by (simp add: HasPrefix_def)
  have 4: "Limit default_args \<le> 0"
    by (simp add: default_args_def)
  from desync_when_secondary_shorter [of stored_block default_args
      "[''@a'', ''A'', ''+'', ''I'', ''@b'', ''C'', ''+'', ''I'']" "[''@a'', ''A'', ''+'', ''I'']",
      THEN conjunct2, THEN conjunct1] 1 2 3 4
  have "\<exists>st. main stored_block default_args
      [[''@a'', ''A'', ''+'', ''I'', ''@b'', ''C'', ''+'', ''I''], [''@a'', ''A'', ''+'', ''I'']] =
        Some (Failed (Desync 1), st) \<and>
      line_num st = length [''@a'', ''A'', ''+'', ''I'']"
    by blast
  with 1 2 3 4 show ?thesis by blast
qed

text \<open>
  C4. The claim: at most \<open>N\<close> rows for a limit \<open>N > 0\<close>, \<open>Done\<close> once \<open>N\<close> rows are
  written, and with limit 0 as many rows as the input has complete cycles. The last
  part fails on an input that ends in a partial cycle with a sequence line: one complete
  cycle followed by a header and a sequence line gives two rows.
\<close>

theorem partial_cycle_counted:
  "main stored_block default_args [[''@a'', ''AC'', ''+'', ''II'', ''@b'', ''G'']] =
     Some (Done, \<lparr>inputScanners = [[]], line_num = 6, read_count = 2, read_name = ''b'',
        read_buf = zlib_stream stored_block (''G'' @ [CHR 0x0A]),
        zwriter = Closed (''G'' @ [CHR 0x0A]), full_len = 0,
        output_rows = [Fprintf_row ''a'' 2 14 (float64_div (float64_of 2) (float64_of 14)),
                       Fprintf_row ''b'' 1 13 (float64_div (float64_of 1) (float64_of 13))]\<rparr>) \<and>
   length [''@a'', ''AC'', ''+'', ''II'', ''@b'', ''G''] div 4 = 1"
  by (simp add: run_eval) (simp add: eval_nat_numeral)?

text \<open>
  C4, as the code has it. For a limit \<open>N > 0\<close> at most \<open>N\<close> rows are written, and a run
  that has written \<open>N\<close> rows ends \<open>Done\<close>. On a single input whose header lines all start
  with the sigil the run ends \<open>Done\<close>, and the number of rows is the number of cycles
  whose header and sequence line are there, \<open>(lines + 2) div 4\<close>, capped by the limit when
  it is positive; for an input of complete cycles only this is the number of complete
  cycles. (Limit 2 on five complete reads: two rows, \<open>Done\<close>.)
\<close>

theorem rows_capped_by_limit:
  assumes res: "main deflate args fq = Some (r, st)"
  shows "(0 < Limit args \<longrightarrow>
            int (length (output_rows st)) \<le> Limit args \<and>
            (int (length (output_rows st)) = Limit args \<longrightarrow> r = Done)) \<and>
         (\<forall>s. fq = [s] \<and> (\<forall>m<length s. m mod 4 = 0 \<longrightarrow> HasPrefix (s ! m) ''@'') \<longrightarrow>
            r = Done \<and>
            length (output_rows st) =
              (if 0 < Limit args then min (nat (Limit args)) ((length s + 2) div 4)
               else (length s + 2) div 4) \<and>
            (length s mod 4 = 0 \<longrightarrow> (length s + 2) div 4 = length s div 4))"
proof (intro conjI allI impI)
  note f = main_facts [OF res]
  from f(1,2) have len: "length (output_rows st) = read_count st"
    by simp
  assume lim: "0 < Limit args"
  with f(4) len show "int (length (output_rows st)) \<le> Limit args"
    by simp
  assume eq: "int (length (output_rows st)) = Limit args"
  show "r = Done"
  proof (cases "fq = []")
    case True
    with res have "output_rows st = []"
      by (auto simp: main_no_inputs init_def)
    with eq lim show ?thesis by simp
  next
    case False
    from main_end [OF False res] eq len lim show ?thesis by auto
  qed
next
  fix s
  assume h: "fq = [s] \<and> (\<forall>m<length s. m mod 4 = 0 \<longrightarrow> HasPrefix (s ! m) ''@'')"
  then have fq: "fq = [s]" and wf: "\<forall>m<length s. m mod 4 = 0 \<longrightarrow> HasPrefix (s ! m) ''@''"
    by simp_all
  note f = main_facts [OF res]
  from f(1,2) have len: "length (output_rows st) = (line_num st + 2) div 4"
    and rc: "read_count st = (line_num st + 2) div 4"
    by simp_all
  from f(3) fq have "lines_ok args [s] (line_num st)" by simp
  then have le: "line_num st \<le> length s"
    by (simp add: lines_ok_def)
  then have le4: "(line_num st + 2) div 4 \<le> (length s + 2) div 4"
    by (intro div_le_mono) simp
  from main_end [OF _ res] fq
  consider (limit) "r = Done" "0 < Limit args" "int (read_count st) = Limit args"
    | (stop) "\<not> (0 < Limit args \<and> Limit args \<le> int (read_count st))"
        "line_verdict args [s] (line_num st) 0 = Some r"
    by (auto simp: less_Suc_eq)
  then have "r = Done \<and> length (output_rows st) =
              (if 0 < Limit args then min (nat (Limit args)) ((length s + 2) div 4)
               else (length s + 2) div 4)"
  proof cases
    case limit
    with len rc le4 show ?thesis by auto
  next
    case stop
    from stop(2) have "r = Done" "length s \<le> line_num st"
      by (auto simp: verdict_single [OF wf] split: if_splits)
    with le have "line_num st = length s" by simp
    with len rc stop(1) \<open>r = Done\<close> show ?thesis by auto
  qed
  then show "r = Done"
    and "length (output_rows st) =
              (if 0 < Limit args then min (nat (Limit args)) ((length s + 2) div 4)
               else (length s + 2) div 4)"
    by simp_all
  show "(length s + 2) div 4 = length s div 4" if "length s mod 4 = 0"
    using that by presburger
qed

theorem rows_capped_by_limit_witness:
  "\<exists>r st. main stored_block (default_args\<lparr>Limit := 2\<rparr>)
        [[''@a'', ''A'', ''+'', ''I'', ''@b'', ''C'', ''+'', ''I'', ''@c'', ''G'', ''+'', ''I'',
          ''@d'', ''T'', ''+'', ''I'', ''@e'', ''N'', ''+'', ''I'']] = Some (r, st) \<and>
      0 < Limit (default_args\<lparr>Limit := 2\<rparr>) \<and>
      length [''@a'', ''A'', ''+'', ''I'', ''@b'', ''C'', ''+'', ''I'', ''@c'', ''G'', ''+'', ''I'',
          ''@d'', ''T'', ''+'', ''I'', ''@e'', ''N'', ''+'', ''I''] = 4 * 5 \<and>
      r = Done \<and> length (output_rows st) = 2"
proof -
  define s where "s = [''@a'', ''A'', ''+'', ''I'', ''@b'', ''C'', ''+'', ''I'', ''@c'', ''G'', ''+'', ''I'',
          ''@d'', ''T'', ''+'', ''I'', ''@e'', ''N'', ''+'', ''I'']"
  from main_total obtain r st
    where res: "main stored_block (default_args\<lparr>Limit := 2\<rparr>) [s] = Some (r, st)"
    by (metis surj_pair)
  have "lines_ok default_args [s] 20"
    unfolding s_def by (simp add: lines_ok_eval)
  then have wf: "\<forall>m<length s. m mod 4 = 0 \<longrightarrow> HasPrefix (s ! m) ''@''"
    by (simp add: lines_ok_def header_ok_def s_def)
  from rows_capped_by_limit [OF res, THEN conjunct2, rule_format, of s] wf
  have "r = Done" "length (output_rows st) = min 2 ((length s + 2) div 4)"
    by (simp_all add: default_args_def)
  then have "r = Done" "length (output_rows st) = 2"
    by (simp_all add: s_def)
  with res show ?thesis
    unfolding s_def by (simp add: default_args_def)
qed



text \<open>
  C6. The message of the MalformedRecord error is to name the line number, the offending
  content and the input it occurred on. The code formats the line number and the line
  only: a bad header as the first line of the first input and as the first line of the
  second input give the same error, with the same message, although the messages of the
  two other errors of the same loop name the input (\<^verbatim>\<open>in input %d\<close>,
  \<^verbatim>\<open>scanner %d\<close>).
\<close>

theorem malformed_header_stream_not_named:
  "main stored_block default_args [[''x''], [''@a'']] =
     Some (Failed (MalformedRecord 0 ''x''),
       \<lparr>inputScanners = [[], [''@a'']], line_num = 0, read_count = 0, read_name = [],
          read_buf = [], zwriter = Nil, full_len = 0, output_rows = []\<rparr>) \<and>
   main stored_block default_args [[''@a''], [''x'']] =
     Some (Failed (MalformedRecord 0 ''x''),
       \<lparr>inputScanners = [[], []], line_num = 0, read_count = 0, read_name = ''a'',
          read_buf = [], zwriter = Open [], full_len = 0, output_rows = []\<rparr>) \<and>
   message (MalformedRecord 0 ''x'') =
     ''Line 0 should be a fastq header line, got: x'' @ [CHR 0x0A]"
  by (simp add: run_eval dec_digit digit_char_simps)

text \<open>
  The rest of what C6 says holds. When the run reaches a header position \<open>n\<close> where
  input \<open>j\<close> has a line that does not start with the sigil (every input has its lines
  before \<open>n\<close> with headers that pass the checks, the inputs before \<open>j\<close> pass at \<open>n\<close>, and
  the limit is not reached), it fails there with the MalformedRecord error of that line
  number (counted from 0) and that content, and the output holds the \<open>n div 4\<close> rows of the
  reads before it and no other.
\<close>

lemma malformed_header_fails:
  assumes n4: "n mod 4 = 0" and ok: "lines_ok args fq n" and j: "j < length fq"
    and before: "\<forall>j'<j. n < length (fq ! j') \<and> header_ok args fq n j'"
    and here: "n < length (fq ! j)" and bad: "\<not> HasPrefix (fq ! j ! n) ''@''"
    and lim: "Limit args \<le> 0 \<or> int (n div 4) < Limit args"
  shows "\<exists>st. main deflate args fq = Some (Failed (MalformedRecord n (fq ! j ! n)), st) \<and>
           line_num st = n \<and> length (output_rows st) = n div 4 \<and>
           message (MalformedRecord n (fq ! j ! n)) =
             ''Line '' @ dec n @ '' should be a fastq header line, got: '' @ fq ! j ! n @ [CHR 0x0A]"
proof -
  from j have ne: "fq \<noteq> []" by auto
  from n4 have d: "(n + 2) div 4 = n div 4" by presburger
  from before have v0: "\<forall>j'<j. line_verdict args fq n j' = None"
    by (simp add: verdict_None_iff)
  from n4 here bad
  have v1: "line_verdict args fq n j = Some (Failed (MalformedRecord n (fq ! j ! n)))"
    by (simp add: line_verdict_def)
  from lim d have lim': "Limit args \<le> 0 \<or> int ((n + 2) div 4) < Limit args" by simp
  from main_stops_at [OF ne ok j v0 v1 lim', of deflate] d show ?thesis
    by auto
qed

lemma malformed_header_fails_example:
  "4 mod 4 = (0::nat) \<and>
   lines_ok default_args
     [[''@a'', ''A'', ''+'', ''I'', ''@b'', ''C''], [''@a'', ''G'', ''+'', ''I'', ''b'', ''T'']] 4 \<and>
   (1::nat) < length [[''@a'', ''A'', ''+'', ''I'', ''@b'', ''C''], [''@a'', ''G'', ''+'', ''I'', ''b'', ''T'']] \<and>
   \<not> HasPrefix ([[''@a'', ''A'', ''+'', ''I'', ''@b'', ''C''],
       [''@a'', ''G'', ''+'', ''I'', ''b'', ''T'']] ! 1 ! 4) ''@'' \<and>
   Limit default_args \<le> 0 \<and>
   (\<exists>st. main stored_block default_args
       [[''@a'', ''A'', ''+'', ''I'', ''@b'', ''C''], [''@a'', ''G'', ''+'', ''I'', ''b'', ''T'']] =
         Some (Failed (MalformedRecord 4 ''b''), st) \<and>
       line_num st = 4 \<and> length (output_rows st) = 1) \<and>
   message (MalformedRecord 4 ''b'') =
     ''Line 4 should be a fastq header line, got: b'' @ [CHR 0x0A]"
proof -
  define fq where "fq = [[''@a'', ''A'', ''+'', ''I'', ''@b'', ''C''],
    [''@a'', ''G'', ''+'', ''I'', ''b'', ''T'']]"
  have 1: "4 mod 4 = (0::nat)" by simp
  have 2: "lines_ok default_args fq 4"
    unfolding fq_def by (simp add: lines_ok_eval)
  have 3: "(1::nat) < length fq" by (simp add: fq_def)
  have 4: "\<forall>j'<1. 4 < length (fq ! j') \<and> header_ok default_args fq 4 j'"
    by (simp add: fq_def header_ok_def HasPrefix_def)
  have 5: "4 < length (fq ! 1)" by (simp add: fq_def)
  have 6: "\<not> HasPrefix (fq ! 1 ! 4) ''@''" by (simp add: fq_def HasPrefix_def)
  have 7: "Limit default_args \<le> 0 \<or> int (4 div 4) < Limit default_args"
    by (simp add: default_args_def)
  have 8: "fq ! 1 ! 4 = ''b''" by (simp add: fq_def)
  from malformed_header_fails [OF 1 2 3 4 5 6 7, of stored_block] 1 2 3 6
  show ?thesis
    unfolding 8 unfolding fq_def
    by (simp add: default_args_def dec_digit digit_char_simps)
qed



text \<open>
  C8. With no positional argument the program is to read its one input from standard
  input. The code opens a reader per positional argument only, so with none there is no
  scanner at all: nothing is read, the round of line 0 does nothing, and in the round of
  line 1 \<^verbatim>\<open>zwriter.Close()\<close> is called on the nil pointer. The run ends in a panic, with
  no row written, whatever the flags and the compressor.
\<close>

theorem no_inputs_panic:
  "main deflate args [] =
     Some (Panic, \<lparr>inputScanners = [], line_num = 1, read_count = 0, read_name = [],
                   read_buf = [], zwriter = Nil, full_len = 0, output_rows = []\<rparr>)"
  by (simp add: main_def init_def run_loop.simps scan_inputs.simps)

text \<open>
  C9. The compressed length of every row is the size of the whole zlib container of the
  bytes written for that read, and of nothing else: the two header bytes, the DEFLATE
  stream and the four checksum bytes of the sequence lines of read \<open>k\<close> (each with its
  newline). A writer reused across reads would carry the bytes of earlier reads, and one
  closed twice would add four bytes; the row shows neither.
\<close>

theorem compressed_length_is_container_size:
  assumes "main deflate args fq = Some (r, st)"
  shows "\<forall>k<length (output_rows st). \<exists>name full.
           output_rows st ! k =
             Fprintf_row name full (length (zlib_stream deflate (seq_bytes fq (4 * k + 1))))
               (float64_div (float64_of full)
                  (float64_of (length (zlib_stream deflate (seq_bytes fq (4 * k + 1)))))) \<and>
           length (zlib_stream deflate (seq_bytes fq (4 * k + 1))) =
             2 + length (deflate (seq_bytes fq (4 * k + 1))) + 4"
proof (intro allI impI)
  fix k assume k: "k < length (output_rows st)"
  from main_rows(1) [OF assms k]
  have "output_rows st ! k =
      Fprintf_row (read_ident (fq ! 0 ! (4 * k))) (seq_len fq (4 * k + 1))
        (length (zlib_stream deflate (seq_bytes fq (4 * k + 1))))
        (float64_div (float64_of (seq_len fq (4 * k + 1)))
           (float64_of (length (zlib_stream deflate (seq_bytes fq (4 * k + 1))))))"
    by (simp add: row_at_def Let_def)
  then show "\<exists>name full.
           output_rows st ! k =
             Fprintf_row name full (length (zlib_stream deflate (seq_bytes fq (4 * k + 1))))
               (float64_div (float64_of full)
                  (float64_of (length (zlib_stream deflate (seq_bytes fq (4 * k + 1)))))) \<and>
           length (zlib_stream deflate (seq_bytes fq (4 * k + 1))) =
             2 + length (deflate (seq_bytes fq (4 * k + 1))) + 4"
    using zlib_stream_length by blast
qed

theorem compressed_length_is_container_size_witness:
  "\<exists>r st. main stored_block default_args
        [[''@a'', ''ACGT'', ''+'', ''IIII'', ''@b'', ''GG'', ''+'', ''II'']] = Some (r, st) \<and>
      1 < length (output_rows st) \<and>
      (\<exists>name full. output_rows st ! 1 =
         Fprintf_row name full
           (length (zlib_stream stored_block
              (seq_bytes [[''@a'', ''ACGT'', ''+'', ''IIII'', ''@b'', ''GG'', ''+'', ''II'']] (4 * 1 + 1))))
           (float64_div (float64_of full)
              (float64_of (length (zlib_stream stored_block
                 (seq_bytes [[''@a'', ''ACGT'', ''+'', ''IIII'', ''@b'', ''GG'', ''+'', ''II'']] (4 * 1 + 1)))))) \<and>
         length (zlib_stream stored_block
           (seq_bytes [[''@a'', ''ACGT'', ''+'', ''IIII'', ''@b'', ''GG'', ''+'', ''II'']] (4 * 1 + 1))) =
         2 + length (stored_block
           (seq_bytes [[''@a'', ''ACGT'', ''+'', ''IIII'', ''@b'', ''GG'', ''+'', ''II'']] (4 * 1 + 1))) + 4) \<and>
      seq_bytes [[''@a'', ''ACGT'', ''+'', ''IIII'', ''@b'', ''GG'', ''+'', ''II'']] (4 * 1 + 1) =
        ''GG'' @ [CHR 0x0A]"
proof -
  have "\<exists>st. main stored_block default_args
        [[''@a'', ''ACGT'', ''+'', ''IIII'', ''@b'', ''GG'', ''+'', ''II'']] = Some (Done, st) \<and>
      output_rows st = [Fprintf_row ''a'' 4 16 (float64_div (float64_of 4) (float64_of 16)),
                        Fprintf_row ''b'' 2 14 (float64_div (float64_of 2) (float64_of 14))]"
    by (simp add: run_eval) (simp add: eval_nat_numeral)?
  then obtain st where e: "main stored_block default_args
        [[''@a'', ''ACGT'', ''+'', ''IIII'', ''@b'', ''GG'', ''+'', ''II'']] = Some (Done, st)"
    and rows: "output_rows st = [Fprintf_row ''a'' 4 16 (float64_div (float64_of 4) (float64_of 16)),
                        Fprintf_row ''b'' 2 14 (float64_div (float64_of 2) (float64_of 14))]"
    by blast
  from rows have len: "1 < length (output_rows st)" by simp
  have s: "seq_bytes [[''@a'', ''ACGT'', ''+'', ''IIII'', ''@b'', ''GG'', ''+'', ''II'']] (4 * 1 + 1) =
        ''GG'' @ [CHR 0x0A]"
    by (simp add: seq_bytes_def)
  from compressed_length_is_container_size [OF e, rule_format, OF len] e len s
  show ?thesis by blast
qed

text \<open>
  C10. The compressed length of every row is at least 6, also when the sequence line is
  empty and the raw length is 0: the container always has its header and checksum. So
  the divisor of the ratio is not zero and the ratio is a finite number, never
  \<^verbatim>\<open>+Inf\<close> or \<^verbatim>\<open>NaN\<close>.
\<close>

theorem compressed_length_positive:
  assumes "main deflate args fq = Some (r, st)"
  shows "\<forall>k<length (output_rows st). \<exists>name full compressed x.
           output_rows st ! k = Fprintf_row name full compressed (Finite x) \<and>
           6 \<le> compressed \<and> float64_of compressed \<noteq> Finite 0 \<and>
           float64_div (float64_of full) (float64_of compressed) = Finite x"
proof (intro allI impI)
  fix k assume k: "k < length (output_rows st)"
  define full where "full = seq_len fq (4 * k + 1)"
  define compressed where "compressed = length (zlib_stream deflate (seq_bytes fq (4 * k + 1)))"
  have c: "6 \<le> compressed"
    by (simp add: compressed_def zlib_stream_length)
  then have pos: "0 < compressed" by simp
  from float64_of_pos [OF pos] have nz: "float64_of compressed \<noteq> Finite 0"
    by auto
  from float64_div_finite [OF pos, of full] obtain x
    where x: "float64_div (float64_of full) (float64_of compressed) = Finite x"
    by blast
  have "row_at deflate fq k =
      Fprintf_row (read_ident (fq ! 0 ! (4 * k))) full compressed
        (float64_div (float64_of full) (float64_of compressed))"
    unfolding row_at_def Let_def full_def compressed_def by (rule refl)
  with main_rows(1) [OF assms k] x
  have "output_rows st ! k = Fprintf_row (read_ident (fq ! 0 ! (4 * k))) full compressed (Finite x)"
    by (simp only:)
  with c nz x show "\<exists>name full compressed x.
           output_rows st ! k = Fprintf_row name full compressed (Finite x) \<and>
           6 \<le> compressed \<and> float64_of compressed \<noteq> Finite 0 \<and>
           float64_div (float64_of full) (float64_of compressed) = Finite x"
    by blast
qed

theorem compressed_length_positive_witness:
  "\<exists>r st. main stored_block default_args [[''@r'', []]] = Some (r, st) \<and>
      output_rows st = [Fprintf_row ''r'' 0 12 (float64_div (float64_of 0) (float64_of 12))] \<and>
      0 < length (output_rows st) \<and>
      (\<exists>name full compressed x.
           output_rows st ! 0 = Fprintf_row name full compressed (Finite x) \<and>
           6 \<le> compressed \<and> float64_of compressed \<noteq> Finite 0 \<and>
           float64_div (float64_of full) (float64_of compressed) = Finite x)"
proof -
  have "\<exists>st. main stored_block default_args [[''@r'', []]] = Some (Done, st) \<and>
      output_rows st = [Fprintf_row ''r'' 0 12 (float64_div (float64_of 0) (float64_of 12))]"
    by (simp add: run_eval) (simp add: eval_nat_numeral)?
  then obtain st where e: "main stored_block default_args [[''@r'', []]] = Some (Done, st)"
    and rows: "output_rows st = [Fprintf_row ''r'' 0 12 (float64_div (float64_of 0) (float64_of 12))]"
    by blast
  from rows have len: "0 < length (output_rows st)" by simp
  from compressed_length_positive [OF e, rule_format, OF len] e len rows
  show ?thesis by blast
qed

end
